theory Spec2Isabelle
  imports Complex_Main
begin

section \<open>Data model\<close>

text \<open>
  A landmark point as the provider delivers it: normalised image coordinates, \<open>y\<close>
  growing downwards. Python floats are modelled as exact reals; every claim below is
  about comparisons of the computed quantities, none about rounding.
\<close>

record landmark =
  x :: real
  y :: real

text \<open>The only exception the classifier and the frame loop can raise themselves.\<close>

datatype error = IndexError

text \<open>
  \<open>seq[i]\<close> for a constant, non-negative index \<open>i\<close>: Python raises IndexError when the
  index is past the end of the sequence.
\<close>

definition getitem :: "'a list \<Rightarrow> nat \<Rightarrow> error + 'a" where
  "getitem xs i = (if i < length xs then Inr (xs ! i) else Inl IndexError)"

section \<open>Gesture classifier\<close>

definition finger_tips :: "nat list" where
  "finger_tips = [8, 12, 16, 20]"

definition finger_pips :: "nat list" where
  "finger_pips = [6, 10, 14, 18]"

text \<open>
  The \<open>for tip, pip in zip(finger_tips, finger_pips)\<close> loop of \<open>is_fist\<close>, with the
  counter \<open>fingers_curled\<close> as accumulator. \<open>landmarks[tip]\<close> is read before
  \<open>landmarks[pip]\<close>.
\<close>

fun curl_loop :: "landmark list \<Rightarrow> (nat \<times> nat) list \<Rightarrow> nat \<Rightarrow> error + nat" where
  "curl_loop landmarks [] fingers_curled = Inr fingers_curled"
| "curl_loop landmarks ((tip, pip) # rest) fingers_curled =
     (case getitem landmarks tip of
        Inl e \<Rightarrow> Inl e
      | Inr t \<Rightarrow>
          (case getitem landmarks pip of
             Inl e \<Rightarrow> Inl e
           | Inr p \<Rightarrow>
               curl_loop landmarks rest
                 (if y t > y p then fingers_curled + 1 else fingers_curled)))"

text \<open>
  \<open>GestureDetector.is_fist\<close>: the finger loop, then the reads of landmarks 4, 3, 2 and
  5 in the order of the source (\<open>thumb_ip\<close> is read and never used), then the verdict.
\<close>

definition is_fist :: "landmark list \<Rightarrow> error + bool" where
  "is_fist landmarks =
     (case curl_loop landmarks (zip finger_tips finger_pips) 0 of
        Inl e \<Rightarrow> Inl e
      | Inr fingers_curled \<Rightarrow>
          (case getitem landmarks 4 of
             Inl e \<Rightarrow> Inl e
           | Inr thumb_tip \<Rightarrow>
               (case getitem landmarks 3 of
                  Inl e \<Rightarrow> Inl e
                | Inr thumb_ip \<Rightarrow>
                    (case getitem landmarks 2 of
                       Inl e \<Rightarrow> Inl e
                     | Inr thumb_mcp \<Rightarrow>
                         (case getitem landmarks 5 of
                            Inl e \<Rightarrow> Inl e
                          | Inr index_mcp \<Rightarrow>
                              (let thumb_curled =
                                     (\<bar>x thumb_tip - x thumb_mcp\<bar> < \<bar>x index_mcp - x thumb_mcp\<bar>)
                               in Inr (fingers_curled \<ge> 3 \<and> thumb_curled)))))))"

text \<open>
  \<open>GestureDetector.is_left_hand\<close>: reads the wrist (0) and the middle finger's base
  (9), and compares the wrist's \<open>x\<close> with the midline; \<open>image_width\<close> is not used.
\<close>

definition is_left_hand :: "landmark list \<Rightarrow> nat \<Rightarrow> error + bool" where
  "is_left_hand landmarks image_width =
     (case getitem landmarks 0 of
        Inl e \<Rightarrow> Inl e
      | Inr wrist \<Rightarrow>
          (case getitem landmarks 9 of
             Inl e \<Rightarrow> Inl e
           | Inr middle_mcp \<Rightarrow>
               (let hand_center_x = x wrist in Inr (hand_center_x < 0.5))))"

section \<open>Alert state machine\<close>

text \<open>
  The three alert attributes of \<open>GestureDetector\<close>. \<open>alert_duration\<close> is set to 2 by
  \<open>__init__\<close> and no method assigns it again.
\<close>

record detector =
  alert_active :: bool
  alert_start_time :: real
  alert_duration :: real

definition init_detector :: detector where
  "init_detector = \<lparr>alert_active = False, alert_start_time = 0, alert_duration = 2\<rparr>"

text \<open>
  \<open>time.time()\<close> is an effect: each call is a reading of the wall clock of its own. The
  reading a call obtains is an argument of the model (\<open>now\<close>), so that two calls in one
  frame may see two different readings, as they do in the program. The prints of
  \<open>trigger_alert\<close> change no state and are left out.
\<close>

definition trigger_alert :: "real \<Rightarrow> detector \<Rightarrow> detector" where
  "trigger_alert now self = self\<lparr>alert_active := True, alert_start_time := now\<rparr>"

definition check_alert_timeout :: "real \<Rightarrow> detector \<Rightarrow> detector" where
  "check_alert_timeout now self =
     (if alert_active self then
        (if now - alert_start_time self > alert_duration self
         then self\<lparr>alert_active := False\<rparr>
         else self)
      else self)"

section \<open>Frame processor\<close>

text \<open>One entry of a provider handedness result (\<open>classification[k]\<close>).\<close>

record classification =
  label :: string
  score :: real

text \<open>
  What \<open>process_frame\<close> reads of a frame: its shape and what the two providers return
  for it. \<open>detections\<close>, \<open>multi_hand_landmarks\<close> and \<open>multi_handedness\<close> are \<open>None\<close> or
  a sequence; one element of \<open>multi_hand_landmarks\<close> is the \<open>landmark\<close> sequence of one
  hand, one element of \<open>multi_handedness\<close> the \<open>classification\<close> sequence of one hand.
  The face detections are opaque (\<open>'f\<close>).
\<close>

record 'f frame =
  height :: nat
  width :: nat
  detections :: "'f list option"
  multi_hand_landmarks :: "landmark list list option"
  multi_handedness :: "classification list list option"

record detection_info =
  faces_detected :: nat
  hands_detected :: nat
  left_fist_detected :: bool

text \<open>Python's truth value of an optional sequence: \<open>None\<close> and the empty one are false.\<close>

definition truthy :: "'a list option \<Rightarrow> bool" where
  "truthy v = (case v of None \<Rightarrow> False | Some xs \<Rightarrow> xs \<noteq> [])"

text \<open>
  The \<open>for idx, hand_landmarks in enumerate(...)\<close> loop of \<open>process_frame\<close>. \<open>mh\<close> is
  \<open>hand_results.multi_handedness\<close>, \<open>clock idx\<close> the reading \<open>time.time()\<close> returns
  inside \<open>trigger_alert\<close> when iteration \<open>idx\<close> calls it. An exception leaves the loop
  with the detector as mutated so far. The drawing calls only write pixels and are left
  out; \<open>is_left\<close> is computed and never read.
\<close>

fun hand_loop ::
  "classification list list option \<Rightarrow> (nat \<Rightarrow> real) \<Rightarrow> nat \<Rightarrow> nat \<Rightarrow> landmark list list \<Rightarrow>
   detection_info \<Rightarrow> detector \<Rightarrow> (error + detection_info) \<times> detector" where
  "hand_loop mh clock w idx [] info self = (Inr info, self)"
| "hand_loop mh clock w idx (hand_landmarks # rest) info self =
     (case is_fist hand_landmarks of
        Inl e \<Rightarrow> (Inl e, self)
      | Inr fist \<Rightarrow>
          (case is_left_hand hand_landmarks w of
             Inl e \<Rightarrow> (Inl e, self)
           | Inr is_left \<Rightarrow>
               (if truthy mh then
                  (case getitem (case mh of Some hd_list \<Rightarrow> hd_list | None \<Rightarrow> []) idx of
                     Inl e \<Rightarrow> (Inl e, self)
                   | Inr handedness \<Rightarrow>
                       (case getitem handedness 0 of
                          Inl e \<Rightarrow> (Inl e, self)
                        | Inr c \<Rightarrow>
                            (if label c = ''Left'' \<and> fist then
                               hand_loop mh clock w (idx + 1) rest
                                 (info\<lparr>left_fist_detected := True\<rparr>)
                                 (trigger_alert (clock idx) self)
                             else hand_loop mh clock w (idx + 1) rest info self)))
                else hand_loop mh clock w (idx + 1) rest info self)))"

text \<open>
  \<open>GestureDetector.process_frame\<close>: the summary, the face count, the hand loop, then
  \<open>check_alert_timeout\<close> with its own clock reading \<open>now\<close>. The result is the summary
  (or the exception) and the detector afterwards.
\<close>

definition process_frame ::
  "(nat \<Rightarrow> real) \<Rightarrow> real \<Rightarrow> 'f frame \<Rightarrow> detector \<Rightarrow> (error + detection_info) \<times> detector" where
  "process_frame clock now frm self =
     (let info0 = \<lparr>faces_detected = 0, hands_detected = 0, left_fist_detected = False\<rparr>;
          info1 = (if truthy (detections frm)
                   then info0\<lparr>faces_detected :=
                          length (case detections frm of Some ds \<Rightarrow> ds | None \<Rightarrow> [])\<rparr>
                   else info0)
      in if truthy (multi_hand_landmarks frm) then
           (let hs = (case multi_hand_landmarks frm of Some hs \<Rightarrow> hs | None \<Rightarrow> [])
            in case hand_loop (multi_handedness frm) clock (width frm) 0 hs
                      (info1\<lparr>hands_detected := length hs\<rparr>) self of
                 (Inl e, self') \<Rightarrow> (Inl e, self')
               | (Inr info, self') \<Rightarrow> (Inr info, check_alert_timeout now self'))
         else (Inr info1, check_alert_timeout now self))"

text \<open>
  A run of frames on one detector, each with its clock readings; it stops at the first
  exception, as the main loop does.
\<close>

fun run_frames ::
  "((nat \<Rightarrow> real) \<times> real \<times> 'f frame) list \<Rightarrow> detector \<Rightarrow> error + detector" where
  "run_frames [] self = Inr self"
| "run_frames ((clock, now, frm) # rest) self =
     (case process_frame clock now frm self of
        (Inl e, self') \<Rightarrow> Inl e
      | (Inr info, self') \<Rightarrow> run_frames rest self')"

subsection \<open>The classifier as the specification words it\<close>

text \<open>
  The specification's reading of the verdict, on a set of 21 points: the set of curled
  non-thumb fingers, each given by its (tip, PIP) index pair, has at least three
  members, and the thumb is curled.
\<close>

definition curled_fingers :: "landmark list \<Rightarrow> (nat \<times> nat) set" where
  "curled_fingers lm =
     Set.filter (\<lambda>(tip, pip). y (lm ! tip) > y (lm ! pip))
       {(8, 6), (12, 10), (16, 14), (20, 18)}"

definition thumb_is_curled :: "landmark list \<Rightarrow> bool" where
  "thumb_is_curled lm = (\<bar>x (lm ! 4) - x (lm ! 2)\<bar> < \<bar>x (lm ! 5) - x (lm ! 2)\<bar>)"

definition fist_spec :: "landmark list \<Rightarrow> bool" where
  "fist_spec lm = (card (curled_fingers lm) \<ge> 3 \<and> thumb_is_curled lm)"

subsection \<open>The trigger event as the specification words it\<close>

text \<open>
  The handedness label the provider gives for hand \<open>idx\<close> of a frame, when it gives one.
\<close>

definition provider_label :: "classification list list option \<Rightarrow> nat \<Rightarrow> string option" where
  "provider_label mh idx =
     (case mh of
        None \<Rightarrow> None
      | Some cls \<Rightarrow>
          (if idx < length cls
           then (case cls ! idx of [] \<Rightarrow> None | c # _ \<Rightarrow> Some (label c))
           else None))"

text \<open>Hand \<open>idx\<close> qualifies: the provider labels it Left and the classifier says fist.\<close>

definition qualifies :: "classification list list option \<Rightarrow> nat \<times> landmark list \<Rightarrow> bool" where
  "qualifies mh ih = (provider_label mh (fst ih) = Some ''Left'' \<and> is_fist (snd ih) = Inr True)"

text \<open>
  Iteration \<open>idx\<close> of the hand loop raises: the classifier raises on the hand, or a
  non-empty handedness result has no first classification for \<open>idx\<close>.
\<close>

definition hand_raises :: "classification list list option \<Rightarrow> nat \<times> landmark list \<Rightarrow> bool" where
  "hand_raises mh ih = (isl (is_fist (snd ih)) \<or> (truthy mh \<and> provider_label mh (fst ih) = None))"

text \<open>The hand observations and the number of face regions the provider returned.\<close>

definition frame_hands :: "'f frame \<Rightarrow> landmark list list" where
  "frame_hands frm = (case multi_hand_landmarks frm of None \<Rightarrow> [] | Some hs \<Rightarrow> hs)"

definition face_count :: "'f frame \<Rightarrow> nat" where
  "face_count frm = (case detections frm of None \<Rightarrow> 0 | Some ds \<Rightarrow> length ds)"

text \<open>The hand loop as \<open>process_frame\<close> runs it on a frame with hands.\<close>

definition frame_loop ::
  "(nat \<Rightarrow> real) \<Rightarrow> 'f frame \<Rightarrow> detector \<Rightarrow> (error + detection_info) \<times> detector" where
  "frame_loop clock frm s =
     hand_loop (multi_handedness frm) clock (width frm) 0 (frame_hands frm)
       \<lparr>faces_detected = face_count frm, hands_detected = length (frame_hands frm),
        left_fist_detected = False\<rparr> s"

text \<open>A trigger event: some hand observation of the frame qualifies.\<close>

definition trigger_event :: "'f frame \<Rightarrow> bool" where
  "trigger_event frm =
     (case multi_hand_landmarks frm of
        None \<Rightarrow> False
      | Some hs \<Rightarrow> (\<exists>ih \<in> set (enumerate 0 hs). qualifies (multi_handedness frm) ih))"

section \<open>Example inputs\<close>

text \<open>Short forms of a summary and of a detector whose duration is 2.\<close>

abbreviation summary :: "nat \<Rightarrow> nat \<Rightarrow> bool \<Rightarrow> detection_info" where
  "summary f h l \<equiv> \<lparr>faces_detected = f, hands_detected = h, left_fist_detected = l\<rparr>"

abbreviation alert :: "bool \<Rightarrow> real \<Rightarrow> detector" where
  "alert a t \<equiv> \<lparr>alert_active = a, alert_start_time = t, alert_duration = 2\<rparr>"

definition pt :: "real \<Rightarrow> real \<Rightarrow> landmark" where
  "pt a b = \<lparr>x = a, y = b\<rparr>"

text \<open>
  A hand of 21 points: the wrist at \<open>x = wx\<close>, the thumb tip at \<open>x = 0.40\<close>, the thumb's
  base at \<open>x = 0.42\<close>, the index finger's base at \<open>x = 0.50\<close>, the four PIP joints at
  \<open>y = 0.5\<close> and the four finger tips at \<open>y = t1, t2, t3, t4\<close>.
\<close>

definition example_hand :: "real \<Rightarrow> real \<Rightarrow> real \<Rightarrow> real \<Rightarrow> real \<Rightarrow> landmark list" where
  "example_hand wx t1 t2 t3 t4 =
     [pt wx 0.8, pt 0.44 0.7, pt 0.42 0.6, pt 0.41 0.55, pt 0.40 0.5,
      pt 0.50 0.6, pt 0.50 0.5, pt 0.50 0.6, pt 0.50 t1,
      pt 0.55 0.6, pt 0.55 0.5, pt 0.55 0.6, pt 0.55 t2,
      pt 0.60 0.6, pt 0.60 0.5, pt 0.60 0.6, pt 0.60 t3,
      pt 0.65 0.6, pt 0.65 0.5, pt 0.65 0.6, pt 0.65 t4]"

definition scenario_A :: "landmark list" where
  "scenario_A = example_hand 0.3 0.9 0.9 0.9 0.9"

definition three_curled :: "landmark list" where
  "three_curled = example_hand 0.3 0.9 0.9 0.9 0.1"

text \<open>Scenario A with its last point missing, and with one point too many.\<close>

definition short_hand :: "landmark list" where
  "short_hand = butlast scenario_A"

definition long_hand :: "landmark list" where
  "long_hand = scenario_A @ [pt 0.5 0.5]"

definition left_cls :: "classification list" where
  "left_cls = [\<lparr>label = ''Left'', score = 0.9\<rparr>]"

definition right_cls :: "classification list" where
  "right_cls = [\<lparr>label = ''Right'', score = 0.9\<rparr>]"

text \<open>A frame showing the given hands with the given handedness results, and no face.\<close>

definition hands_frame ::
  "landmark list list option \<Rightarrow> classification list list option \<Rightarrow> unit frame" where
  "hands_frame hs mh =
     \<lparr>height = 720, width = 1280, detections = None,
      multi_hand_landmarks = hs, multi_handedness = mh\<rparr>"

definition left_fist_frame :: "unit frame" where
  "left_fist_frame = hands_frame (Some [scenario_A]) (Some [left_cls])"

definition no_hands_frame :: "unit frame" where
  "no_hands_frame = hands_frame None None"

text \<open>The same fist with the wrist right of the midline, and frames showing it.\<close>

definition scenario_A_right_side :: "landmark list" where
  "scenario_A_right_side = example_hand 0.7 0.9 0.9 0.9 0.9"

definition left_fist_frame_right_side :: "unit frame" where
  "left_fist_frame_right_side = hands_frame (Some [scenario_A_right_side]) (Some [left_cls])"

definition right_fist_frame :: "unit frame" where
  "right_fist_frame = hands_frame (Some [scenario_A]) (Some [right_cls])"

definition unlabelled_fist_frame :: "unit frame" where
  "unlabelled_fist_frame = hands_frame (Some [scenario_A]) None"

text \<open>An alert activated at time 0 and not yet evaluated again.\<close>

definition stale_alert :: detector where
  "stale_alert = alert True 0"

text \<open>
  Scenario C: a Left fist in a frame read at 0 s, then frames without hands read at 1.9 s
  and at 2.1 s. Scenario D: Left fists in frames read at 0 s and 1.5 s, then a frame
  without hands read at 3.0 s.
\<close>

definition scenario_C :: "((nat \<Rightarrow> real) \<times> real \<times> unit frame) list" where
  "scenario_C =
     [(\<lambda>_. 0, 0, left_fist_frame), (\<lambda>_. 1.9, 1.9, no_hands_frame),
      (\<lambda>_. 2.1, 2.1, no_hands_frame)]"

definition scenario_D :: "((nat \<Rightarrow> real) \<times> real \<times> unit frame) list" where
  "scenario_D =
     [(\<lambda>_. 0, 0, left_fist_frame), (\<lambda>_. 1.5, 1.5, left_fist_frame),
      (\<lambda>_. 3.0, 3.0, no_hands_frame)]"

section \<open>Properties of the classifier\<close>

lemma error_unique: "(e :: error) = IndexError"
  by (cases e) simp

lemma curl_loop_counts:
  "\<forall>(tip, pip) \<in> set ps. tip < length lm \<and> pip < length lm \<Longrightarrow>
   curl_loop lm ps n = Inr (n + length (filter (\<lambda>(tip, pip). y (lm ! tip) > y (lm ! pip)) ps))"
  by (induction ps arbitrary: n) (auto simp: getitem_def)

lemma curl_loop_reads:
  "curl_loop lm ps n = Inr k \<Longrightarrow> (tip, pip) \<in> set ps \<Longrightarrow> tip < length lm \<and> pip < length lm"
  by (induction ps arbitrary: n) (auto simp: getitem_def split: if_splits)

lemma is_fist_returns_long: "is_fist lm = Inr b \<Longrightarrow> 21 \<le> length lm"
  using curl_loop_reads [of lm "zip finger_tips finger_pips" 0 _ 20 18]
  by (auto simp: is_fist_def finger_tips_def finger_pips_def split: sum.splits)

lemma is_fist_short: "length lm < 21 \<Longrightarrow> is_fist lm = Inl IndexError"
  using is_fist_returns_long [of lm] error_unique
  by (cases "is_fist lm") auto

lemma card_curled_fingers:
  "card (curled_fingers lm) =
   length (filter (\<lambda>(tip, pip). y (lm ! tip) > y (lm ! pip)) [(8, 6), (12, 10), (16, 14), (20, 18)])"
proof -
  let ?ps = "[(8, 6), (12, 10), (16, 14), (20, 18)] :: (nat \<times> nat) list"
  let ?P = "\<lambda>(tip, pip). y (lm ! tip) > y (lm ! pip)"
  have "curled_fingers lm = set (filter ?P ?ps)"
    by (auto simp: curled_fingers_def)
  moreover have "distinct (filter ?P ?ps)"
    by (rule distinct_filter) simp
  ultimately show ?thesis
    by (simp only: distinct_card)
qed

lemma is_fist_long: "21 \<le> length lm \<Longrightarrow> is_fist lm = Inr (fist_spec lm)"
  using curl_loop_counts [of "[(8, 6), (12, 10), (16, 14), (20, 18)]" lm 0]
  by (simp add: is_fist_def finger_tips_def finger_pips_def getitem_def fist_spec_def
      thumb_is_curled_def card_curled_fingers)

lemma fist_spec_take: "fist_spec (take 21 lm) = fist_spec lm"
  by (simp add: fist_spec_def thumb_is_curled_def card_curled_fingers)

section \<open>Properties of the hand loop\<close>

lemma provider_label_falsy: "\<not> truthy mh \<Longrightarrow> provider_label mh idx = None"
  by (auto simp: truthy_def provider_label_def split: option.splits)

text \<open>
  One iteration: it raises and leaves the detector as it is, or goes on to the next hand,
  with the trigger applied when the hand qualifies.
\<close>

lemma hand_loop_step:
  "hand_loop mh clock w idx (h # rest) info s =
     (if hand_raises mh (idx, h) then (Inl IndexError, s)
      else hand_loop mh clock w (Suc idx) rest
             (if qualifies mh (idx, h) then info\<lparr>left_fist_detected := True\<rparr> else info)
             (if qualifies mh (idx, h) then trigger_alert (clock idx) s else s))"
proof (cases "is_fist h")
  case (Inl e)
  then show ?thesis
    by (simp add: hand_raises_def error_unique [of e])
next
  case (Inr fist)
  then have "21 \<le> length h" by (rule is_fist_returns_long)
  then have "is_left_hand h w = Inr (x (h ! 0) < 0.5)"
    by (auto simp: is_left_hand_def getitem_def)
  with Inr show ?thesis
    by (cases mh; cases "truthy mh")
      (auto simp: hand_raises_def qualifies_def provider_label_def truthy_def getitem_def
        split: list.splits)
qed

declare hand_loop.simps(2) [simp del]

lemma hand_loop_no_trigger:
  "\<forall>ih \<in> set (enumerate idx hs). \<not> qualifies mh ih \<Longrightarrow>
   snd (hand_loop mh clock w idx hs info s) = s"
  by (induction hs arbitrary: idx info s) (simp_all add: hand_loop_step)

lemma hand_loop_info:
  "hand_loop mh clock w idx hs info s = (Inr info', s') \<Longrightarrow>
   info' = info\<lparr>left_fist_detected :=
             left_fist_detected info \<or> (\<exists>ih \<in> set (enumerate idx hs). qualifies mh ih)\<rparr>"
proof (induction hs arbitrary: idx info s)
  case Nil
  then show ?case by simp
next
  case (Cons h rest)
  then have "hand_loop mh clock w (Suc idx) rest
      (if qualifies mh (idx, h) then info\<lparr>left_fist_detected := True\<rparr> else info)
      (if qualifies mh (idx, h) then trigger_alert (clock idx) s else s) = (Inr info', s')"
    by (simp add: hand_loop_step split: if_splits)
  from Cons.IH [OF this] show ?case
    by (cases "qualifies mh (idx, h)") auto
qed

lemma hand_loop_triggered:
  "hand_loop mh clock w idx hs info s = (Inr info', s') \<Longrightarrow>
   \<exists>ih \<in> set (enumerate idx hs). qualifies mh ih \<Longrightarrow>
   \<exists>ih \<in> set (enumerate idx hs). qualifies mh ih \<and> s' = trigger_alert (clock (fst ih)) s"
proof (induction hs arbitrary: idx info s)
  case Nil
  then show ?case by simp
next
  case (Cons h rest)
  define info1 where
    "info1 = (if qualifies mh (idx, h) then info\<lparr>left_fist_detected := True\<rparr> else info)"
  define s1 where
    "s1 = (if qualifies mh (idx, h) then trigger_alert (clock idx) s else s)"
  have step: "hand_loop mh clock w (Suc idx) rest info1 s1 = (Inr info', s')"
    using Cons.prems(1) unfolding info1_def s1_def
    by (simp add: hand_loop_step split: if_splits)
  have over: "trigger_alert t s1 = trigger_alert t s" for t
    by (simp add: s1_def trigger_alert_def)
  show ?case
  proof (cases "\<exists>ih \<in> set (enumerate (Suc idx) rest). qualifies mh ih")
    case True
    from Cons.IH [OF step True] show ?thesis
      by (auto simp: over)
  next
    case False
    with Cons.prems(2) have q: "qualifies mh (idx, h)" by auto
    from False hand_loop_no_trigger [of "Suc idx" rest mh clock w info1 s1] step
    have "s' = s1" by simp
    with q show ?thesis by (simp add: s1_def)
  qed
qed

lemma hand_loop_returns:
  "\<forall>ih \<in> set (enumerate idx hs). \<not> hand_raises mh ih \<Longrightarrow>
   \<exists>info' s'. hand_loop mh clock w idx hs info s = (Inr info', s')"
  by (induction hs arbitrary: idx info s) (simp_all add: hand_loop_step)

lemma hand_loop_fst:
  "fst (hand_loop mh clock w idx hs info s) = fst (hand_loop mh clock2 w2 idx hs info s2)"
  by (induction hs arbitrary: idx info s s2) (simp_all add: hand_loop_step)

lemma hand_loop_duration:
  "alert_duration (snd (hand_loop mh clock w idx hs info s)) = alert_duration s"
  by (induction hs arbitrary: idx info s) (simp_all add: hand_loop_step trigger_alert_def)

lemma labels_view:
  assumes "map_option (map (map label)) mh1 = map_option (map (map label)) mh2"
  shows "truthy mh1 = truthy mh2" and "provider_label mh1 idx = provider_label mh2 idx"
proof -
  show "truthy mh1 = truthy mh2"
    using assms by (cases mh1; cases mh2) (auto simp: truthy_def)
  show "provider_label mh1 idx = provider_label mh2 idx"
  proof (cases mh1)
    case None
    with assms show ?thesis by (cases mh2) (simp_all add: provider_label_def)
  next
    case (Some cls1)
    with assms obtain cls2 where mh2: "mh2 = Some cls2"
      and eq: "map (map label) cls1 = map (map label) cls2"
      by (cases mh2) auto
    from eq have len: "length cls1 = length cls2" by (rule map_eq_imp_length_eq)
    have "map label (cls1 ! idx) = map label (cls2 ! idx)" if "idx < length cls1"
      using that eq len by (metis nth_map)
    then show ?thesis using Some mh2 len
      by (cases "cls1 ! idx"; cases "cls2 ! idx") (auto simp: provider_label_def)
  qed
qed

lemma hand_loop_agree:
  "map is_fist hs1 = map is_fist hs2 \<Longrightarrow>
   left_fist_detected info1 = left_fist_detected info2 \<Longrightarrow>
   map_option (map (map label)) mh1 = map_option (map (map label)) mh2 \<Longrightarrow>
   snd (hand_loop mh1 clock w1 idx hs1 info1 s) = snd (hand_loop mh2 clock w2 idx hs2 info2 s) \<and>
   map_sum id left_fist_detected (fst (hand_loop mh1 clock w1 idx hs1 info1 s)) =
   map_sum id left_fist_detected (fst (hand_loop mh2 clock w2 idx hs2 info2 s))"
proof (induction hs1 arbitrary: hs2 idx info1 info2 s)
  case Nil
  then show ?case by simp
next
  case (Cons h1 rest1)
  then obtain h2 rest2 where hs2: "hs2 = h2 # rest2" and same: "is_fist h1 = is_fist h2"
    and rest: "map is_fist rest1 = map is_fist rest2"
    by (cases hs2) auto
  note lv = labels_view [OF Cons.prems(3)]
  have r: "hand_raises mh1 (idx, h1) = hand_raises mh2 (idx, h2)"
    and q: "qualifies mh1 (idx, h1) = qualifies mh2 (idx, h2)"
    by (simp_all add: hand_raises_def qualifies_def same lv)
  have t: "left_fist_detected (info1\<lparr>left_fist_detected := True\<rparr>) =
           left_fist_detected (info2\<lparr>left_fist_detected := True\<rparr>)" by simp
  from Cons.IH [OF rest t Cons.prems(3)] Cons.IH [OF rest Cons.prems(2,3)]
  show ?case by (simp add: hs2 hand_loop_step r q)
qed

section \<open>Properties of the frame processor\<close>

lemma process_frame_loop:
  "process_frame clock now frm s =
     (case frame_loop clock frm s of
        (Inl e, s') \<Rightarrow> (Inl e, s')
      | (Inr info, s') \<Rightarrow> (Inr info, check_alert_timeout now s'))"
  by (cases "multi_hand_landmarks frm"; cases "detections frm")
    (auto simp: process_frame_def frame_loop_def frame_hands_def face_count_def truthy_def Let_def)

lemma trigger_event_hands:
  "trigger_event frm = (\<exists>ih \<in> set (enumerate 0 (frame_hands frm)). qualifies (multi_handedness frm) ih)"
  by (simp add: trigger_event_def frame_hands_def split: option.splits)

lemma process_frame_summary:
  assumes "process_frame clock now frm s = (Inr info, s')"
  shows "info = \<lparr>faces_detected = face_count frm, hands_detected = length (frame_hands frm),
                  left_fist_detected = trigger_event frm\<rparr>"
proof -
  from assms obtain s1 where "frame_loop clock frm s = (Inr info, s1)"
    by (auto simp: process_frame_loop split: prod.splits sum.splits)
  from hand_loop_info [OF this [unfolded frame_loop_def]] show ?thesis
    by (simp add: trigger_event_hands)
qed

lemma process_frame_triggered:
  assumes "process_frame clock now frm s = (Inr info, s')" and "trigger_event frm"
  shows "\<exists>ih \<in> set (enumerate 0 (frame_hands frm)).
           qualifies (multi_handedness frm) ih \<and>
           s' = check_alert_timeout now (trigger_alert (clock (fst ih)) s)"
proof -
  from assms(1) obtain s1 where loop: "frame_loop clock frm s = (Inr info, s1)"
    and s': "s' = check_alert_timeout now s1"
    by (auto simp: process_frame_loop split: prod.splits sum.splits)
  from hand_loop_triggered [OF loop [unfolded frame_loop_def]] assms(2) s' show ?thesis
    by (auto simp: trigger_event_hands)
qed

lemma process_frame_not_triggered:
  assumes "\<not> trigger_event frm"
  shows "snd (process_frame clock now frm s) =
           (if isl (fst (process_frame clock now frm s)) then s else check_alert_timeout now s)"
proof -
  from assms have "snd (frame_loop clock frm s) = s"
    by (simp add: frame_loop_def trigger_event_hands hand_loop_no_trigger)
  then show ?thesis
    by (cases "frame_loop clock frm s") (auto simp: process_frame_loop split: sum.splits)
qed

lemma process_frame_returns:
  assumes "\<forall>ih \<in> set (enumerate 0 (frame_hands frm)). \<not> hand_raises (multi_handedness frm) ih"
  shows "\<exists>info s'. process_frame clock now frm s = (Inr info, s')"
proof -
  from hand_loop_returns [OF assms] obtain info s1
    where "frame_loop clock frm s = (Inr info, s1)"
    unfolding frame_loop_def by blast
  then show ?thesis by (simp add: process_frame_loop)
qed

lemma process_frame_fst:
  "fst (process_frame clock now frm s) = fst (process_frame clock2 now2 frm s2)"
proof -
  have "fst (frame_loop clock frm s) = fst (frame_loop clock2 frm s2)"
    unfolding frame_loop_def by (rule hand_loop_fst)
  then show ?thesis
    by (cases "frame_loop clock frm s"; cases "frame_loop clock2 frm s2")
      (auto simp: process_frame_loop split: sum.splits)
qed

lemma process_frame_duration:
  "alert_duration (snd (process_frame clock now frm s)) = alert_duration s"
proof -
  have "alert_duration (snd (frame_loop clock frm s)) = alert_duration s"
    unfolding frame_loop_def by (rule hand_loop_duration)
  then show ?thesis
    by (cases "frame_loop clock frm s")
      (auto simp: process_frame_loop check_alert_timeout_def split: sum.splits)
qed

section \<open>The claims about the classifier\<close>

lemma example_hand_length: "length (example_hand wx t1 t2 t3 t4) = 21"
  by (simp add: example_hand_def)

text \<open>
  C1. On every landmark set of exactly 21 points \<open>is_fist\<close> returns a boolean, and it
  is true if and only if at least three of the four fingers (8/6, 12/10, 16/14, 20/18)
  have their tip's \<open>y\<close> strictly greater than their PIP's \<open>y\<close> and the thumb is curled
  (\<open>|x\<^sub>4 - x\<^sub>2| < |x\<^sub>5 - x\<^sub>2|\<close>); in particular exactly three curled fingers with
  a curled thumb give true.
\<close>

theorem is_fist_iff_three_fingers_and_thumb:
  "length lm = 21 \<Longrightarrow>
   is_fist lm = Inr (fist_spec lm) \<and>
   (card (curled_fingers lm) = 3 \<and> thumb_is_curled lm \<longrightarrow> is_fist lm = Inr True)"
  by (simp add: is_fist_long fist_spec_def)

theorem is_fist_iff_three_fingers_and_thumb_witness:
  "length three_curled = 21 \<and> card (curled_fingers three_curled) = 3 \<and>
   thumb_is_curled three_curled \<and> is_fist three_curled = Inr True"
proof -
  have len: "length three_curled = 21"
    by (simp add: three_curled_def example_hand_length)
  have "card (curled_fingers three_curled) = 3" "thumb_is_curled three_curled"
    by (simp_all add: card_curled_fingers thumb_is_curled_def three_curled_def
        example_hand_def pt_def)
  with is_fist_iff_three_fingers_and_thumb [OF len] len show ?thesis by blast
qed

text \<open>
  C2, as the specification states it, asks for a classification error on every set whose
  point count is not 21. With one point too many \<open>is_fist\<close> returns a verdict.
\<close>

theorem is_fist_long_hand_returns:
  "length long_hand \<noteq> 21 \<and> is_fist long_hand = Inr True"
  by (simp add: long_hand_def scenario_A_def example_hand_def pt_def is_fist_def
      finger_tips_def finger_pips_def getitem_def)

text \<open>
  C2, amended. With fewer than 21 points \<open>is_fist\<close> raises IndexError; with more than
  21 points it raises nothing and returns the verdict of the first 21 points.
\<close>

theorem is_fist_point_count:
  "(length lm < 21 \<longrightarrow> is_fist lm = Inl IndexError) \<and>
   (21 < length lm \<longrightarrow>
      is_fist lm = Inr (fist_spec lm) \<and> is_fist lm = is_fist (take 21 lm))"
  by (simp add: is_fist_short is_fist_long fist_spec_take)

theorem is_fist_point_count_witness:
  "length short_hand < 21 \<and> is_fist short_hand = Inl IndexError \<and>
   21 < length long_hand \<and> is_fist long_hand = Inr True \<and>
   is_fist (take 21 long_hand) = Inr True"
proof -
  have "length short_hand < 21" "21 < length long_hand" "fist_spec long_hand"
    by (simp_all add: short_hand_def long_hand_def scenario_A_def example_hand_def pt_def
        fist_spec_def card_curled_fingers thumb_is_curled_def)
  with is_fist_point_count [of short_hand] is_fist_point_count [of long_hand]
  show ?thesis by force
qed

section \<open>The claims about the alert state machine\<close>

lemmas eval_defs =
  process_frame_def hands_frame_def left_fist_frame_def no_hands_frame_def
  left_fist_frame_right_side_def right_fist_frame_def unlabelled_fist_frame_def
  scenario_A_def scenario_A_right_side_def example_hand_def pt_def left_cls_def right_cls_def
  truthy_def is_fist_def is_left_hand_def finger_tips_def finger_pips_def getitem_def
  trigger_alert_def check_alert_timeout_def init_detector_def stale_alert_def
  hand_loop.simps(2)

lemma scenario_A_fist: "is_fist scenario_A = Inr True"
  by (simp add: eval_defs)

lemma left_fist_frame_event: "trigger_event left_fist_frame"
  by (simp add: trigger_event_def qualifies_def provider_label_def scenario_A_fist
      left_fist_frame_def hands_frame_def left_cls_def)

lemma right_fist_frame_no_event: "\<not> trigger_event right_fist_frame"
  by (simp add: trigger_event_def qualifies_def provider_label_def
      right_fist_frame_def hands_frame_def right_cls_def)

text \<open>
  C3. A trigger at clock reading \<open>T\<close> makes the alert active and sets its start time
  to \<open>T\<close>, whatever the state before. A frame with a trigger event that returns ends in
  the state the timeout evaluation gives on the detector as a qualifying hand's trigger
  left it. Scenario D: after triggers at 0 s and 1.5 s the alert is still active in a
  frame read at 3.0 s.
\<close>

theorem trigger_resets_activation:
  "alert_active (trigger_alert T s) \<and> alert_start_time (trigger_alert T s) = T \<and>
   alert_duration (trigger_alert T s) = alert_duration s \<and>
   (process_frame clock now frm s = (Inr info, s') \<and> trigger_event frm \<longrightarrow>
      (\<exists>ih \<in> set (enumerate 0 (frame_hands frm)).
         qualifies (multi_handedness frm) ih \<and>
         s' = check_alert_timeout now
                (s\<lparr>alert_active := True, alert_start_time := clock (fst ih)\<rparr>))) \<and>
   run_frames scenario_D init_detector = Inr (alert True 1.5)"
proof -
  have "run_frames scenario_D init_detector = Inr (alert True 1.5)"
    by (simp add: scenario_D_def eval_defs)
  then show ?thesis
    using process_frame_triggered [of clock now frm s info s']
    by (simp add: trigger_alert_def)
qed

theorem trigger_resets_activation_witness:
  "process_frame (\<lambda>_. 7) 8 left_fist_frame stale_alert = (Inr (summary 0 1 True), alert True 7) \<and>
   trigger_event left_fist_frame \<and>
   (\<exists>ih \<in> set (enumerate 0 (frame_hands left_fist_frame)).
      qualifies (multi_handedness left_fist_frame) ih \<and>
      alert True 7 =
        check_alert_timeout 8 (stale_alert\<lparr>alert_active := True, alert_start_time := 7\<rparr>))"
proof -
  have "process_frame (\<lambda>_. 7) 8 left_fist_frame stale_alert = (Inr (summary 0 1 True), alert True 7)"
    by (simp add: eval_defs)
  with trigger_resets_activation [where s = stale_alert and clock = "\<lambda>_. 7" and now = 8
      and frm = left_fist_frame and info = "summary 0 1 True" and s' = "alert True 7"]
    left_fist_frame_event
  show ?thesis by blast
qed

text \<open>
  C4. On an active alert of duration 2 the timeout evaluation deactivates when the
  elapsed time is strictly more than 2 seconds, and changes nothing when it is not;
  the duration is 2 from the start and no frame changes it. Scenario C: after one trigger
  at 0 s the alert is active in a frame read at 1.9 s, inactive in one read at 2.1 s.
\<close>

theorem timeout_after_two_seconds:
  "(alert_active s \<and> alert_duration s = 2 \<longrightarrow>
      (now - alert_start_time s > 2 \<longrightarrow> check_alert_timeout now s = s\<lparr>alert_active := False\<rparr>) \<and>
      (now - alert_start_time s \<le> 2 \<longrightarrow> check_alert_timeout now s = s)) \<and>
   alert_duration init_detector = 2 \<and>
   alert_duration (snd (process_frame clock now frm s)) = alert_duration s \<and>
   run_frames (take 2 scenario_C) init_detector = Inr (alert True 0) \<and>
   run_frames scenario_C init_detector = Inr (alert False 0)"
proof -
  have "run_frames (take 2 scenario_C) init_detector = Inr (alert True 0)"
    "run_frames scenario_C init_detector = Inr (alert False 0)"
    by (simp_all add: scenario_C_def eval_defs)
  then show ?thesis
    by (simp add: check_alert_timeout_def init_detector_def process_frame_duration)
qed

theorem timeout_after_two_seconds_witness:
  "alert_active stale_alert \<and> alert_duration stale_alert = 2 \<and>
   (21 / 10) - alert_start_time stale_alert > 2 \<and>
   check_alert_timeout (21 / 10) stale_alert = stale_alert\<lparr>alert_active := False\<rparr> \<and>
   2 - alert_start_time stale_alert \<le> 2 \<and>
   check_alert_timeout 2 stale_alert = stale_alert"
proof -
  have "alert_active stale_alert" "alert_duration stale_alert = 2"
    "(21 / 10) - alert_start_time stale_alert > 2" "2 - alert_start_time stale_alert \<le> 2"
    by (simp_all add: stale_alert_def)
  with timeout_after_two_seconds [where s = stale_alert and now = "21 / 10"]
    timeout_after_two_seconds [where s = stale_alert and now = 2]
  show ?thesis by blast
qed

text \<open>
  C5, as the specification states it, lets no frame with a qualifying Left fist end
  inactive. The trigger and the timeout evaluation read the clock each for itself: with
  the trigger's reading at 0 s and the timeout evaluation's at 5 s the frame ends
  inactive.
\<close>

theorem late_timeout_check_deactivates:
  "trigger_event left_fist_frame \<and>
   process_frame (\<lambda>_. 0) 5 left_fist_frame init_detector =
     (Inr (summary 0 1 True), alert False 0)"
proof -
  have "process_frame (\<lambda>_. 0) 5 left_fist_frame init_detector =
     (Inr (summary 0 1 True), alert False 0)"
    by (simp add: eval_defs)
  with left_fist_frame_event show ?thesis by blast
qed

text \<open>
  C5, amended. The timeout evaluation runs on the state the trigger left. A frame with
  a qualifying Left fist that returns ends active, with the start time a qualifying
  hand's trigger read, when the timeout evaluation's clock reading is no more than the
  duration past the readings of the frame's triggers, whatever the state before.
\<close>

theorem trigger_before_timeout_check:
  assumes "process_frame clock now frm s = (Inr info, s')"
    and "trigger_event frm"
    and "\<forall>i < length (frame_hands frm). now - clock i \<le> alert_duration s"
  shows "alert_active s' \<and>
         (\<exists>ih \<in> set (enumerate 0 (frame_hands frm)).
            qualifies (multi_handedness frm) ih \<and>
            s' = check_alert_timeout now (trigger_alert (clock (fst ih)) s) \<and>
            alert_start_time s' = clock (fst ih))"
proof -
  from process_frame_triggered [OF assms(1,2)] obtain ih where
    mem: "ih \<in> set (enumerate 0 (frame_hands frm))"
    and q: "qualifies (multi_handedness frm) ih"
    and s': "s' = check_alert_timeout now (trigger_alert (clock (fst ih)) s)"
    by blast
  from mem assms(3) have "now - clock (fst ih) \<le> alert_duration s"
    by (auto simp: in_set_enumerate_eq)
  then have "alert_active s' \<and> alert_start_time s' = clock (fst ih)"
    by (simp add: s' check_alert_timeout_def trigger_alert_def)
  with mem q s' show ?thesis by blast
qed

theorem trigger_before_timeout_check_witness:
  "process_frame (\<lambda>_. 10) 10 left_fist_frame stale_alert =
     (Inr (summary 0 1 True), alert True 10) \<and>
   trigger_event left_fist_frame \<and>
   \<not> alert_active (check_alert_timeout 10 stale_alert) \<and>
   alert_active (alert True 10)"
proof -
  have p: "process_frame (\<lambda>_. 10) 10 left_fist_frame stale_alert =
     (Inr (summary 0 1 True), alert True 10)"
    by (simp add: eval_defs)
  have c: "\<forall>i < length (frame_hands left_fist_frame). 10 - (\<lambda>_. 10) i \<le> alert_duration stale_alert"
    and t: "\<not> alert_active (check_alert_timeout 10 stale_alert)"
    by (simp_all add: check_alert_timeout_def stale_alert_def)
  from trigger_before_timeout_check [OF p left_fist_frame_event c] p t left_fist_frame_event
  show ?thesis by blast
qed

section \<open>The claims about the frame processor\<close>

text \<open>
  C6. In the summary a frame returns, \<open>left_fist_detected\<close> is true if and only if some
  hand observation of that frame has the provider's label Left and is a fist for
  \<open>is_fist\<close>; the summary (or the exception) is the same for every detector state and
  every clock reading.
\<close>

theorem left_fist_detected_iff_trigger_event:
  "(process_frame clock now frm s = (Inr info, s') \<longrightarrow>
      left_fist_detected info = trigger_event frm) \<and>
   fst (process_frame clock now frm s) = fst (process_frame clock2 now2 frm s2)"
  using process_frame_summary [of clock now frm s info s']
    process_frame_fst [of clock now frm s clock2 now2 s2]
  by auto

theorem left_fist_detected_iff_trigger_event_witness:
  "process_frame (\<lambda>_. 1) 1 right_fist_frame stale_alert = (Inr (summary 0 1 False), stale_alert) \<and>
   alert_active stale_alert \<and>
   left_fist_detected (summary 0 1 False) = trigger_event right_fist_frame \<and>
   process_frame (\<lambda>_. 1) 1 left_fist_frame init_detector = (Inr (summary 0 1 True), alert True 1) \<and>
   left_fist_detected (summary 0 1 True) = trigger_event left_fist_frame"
proof -
  have "process_frame (\<lambda>_. 1) 1 right_fist_frame stale_alert = (Inr (summary 0 1 False), stale_alert)"
    "process_frame (\<lambda>_. 1) 1 left_fist_frame init_detector = (Inr (summary 0 1 True), alert True 1)"
    "alert_active stale_alert"
    by (simp_all add: eval_defs)
  with left_fist_detected_iff_trigger_event [where clock = "\<lambda>_. 1" and now = 1
      and frm = right_fist_frame and s = stale_alert and info = "summary 0 1 False"
      and s' = stale_alert]
    left_fist_detected_iff_trigger_event [where clock = "\<lambda>_. 1" and now = 1
      and frm = left_fist_frame and s = init_detector and info = "summary 0 1 True"
      and s' = "alert True 1"]
  show ?thesis by blast
qed

lemma bex_enumerate:
  "(\<exists>ih \<in> set (enumerate 0 hs). P ih) = (\<exists>i < length hs. P (i, hs ! i))"
  by (auto simp: in_set_enumerate_eq)

text \<open>
  C7. Two frames whose hands have the same \<open>is_fist\<close> outcomes and the same provider
  labels, whatever their landmarks otherwise (so whatever \<open>is_left_hand\<close> says of them)
  and whatever their shapes and faces, have the same trigger event, leave the detector
  in the same state and report the same \<open>left_fist_detected\<close>.
\<close>

theorem trigger_ignores_position_heuristic:
  assumes "map is_fist (frame_hands f1) = map is_fist (frame_hands f2)"
    and "map_option (map (map label)) (multi_handedness f1) =
         map_option (map (map label)) (multi_handedness f2)"
  shows "trigger_event f1 = trigger_event f2 \<and>
         snd (process_frame clock now f1 s) = snd (process_frame clock now f2 s) \<and>
         map_sum id left_fist_detected (fst (process_frame clock now f1 s)) =
         map_sum id left_fist_detected (fst (process_frame clock now f2 s))"
proof -
  have ag: "snd (frame_loop clock f1 s) = snd (frame_loop clock f2 s) \<and>
            map_sum id left_fist_detected (fst (frame_loop clock f1 s)) =
            map_sum id left_fist_detected (fst (frame_loop clock f2 s))"
    unfolding frame_loop_def by (rule hand_loop_agree [OF assms(1) _ assms(2)]) simp
  then have pf: "snd (process_frame clock now f1 s) = snd (process_frame clock now f2 s) \<and>
         map_sum id left_fist_detected (fst (process_frame clock now f1 s)) =
         map_sum id left_fist_detected (fst (process_frame clock now f2 s))"
    by (cases "frame_loop clock f1 s"; cases "frame_loop clock f2 s")
      (auto simp: process_frame_loop split: sum.splits)
  have len: "length (frame_hands f1) = length (frame_hands f2)"
    using assms(1) by (rule map_eq_imp_length_eq)
  have "qualifies (multi_handedness f1) (i, frame_hands f1 ! i) =
        qualifies (multi_handedness f2) (i, frame_hands f2 ! i)"
    if "i < length (frame_hands f1)" for i
    using that len assms(1) labels_view(2) [OF assms(2)]
    by (simp add: qualifies_def) (metis nth_map)
  then have "trigger_event f1 = trigger_event f2"
    using len by (auto simp: trigger_event_hands bex_enumerate)
  with pf show ?thesis by blast
qed

theorem trigger_ignores_position_heuristic_witness:
  "is_left_hand scenario_A (width left_fist_frame) = Inr True \<and>
   is_left_hand scenario_A_right_side (width left_fist_frame_right_side) = Inr False \<and>
   trigger_event left_fist_frame = trigger_event left_fist_frame_right_side \<and>
   snd (process_frame (\<lambda>_. 1) 1 left_fist_frame init_detector) =
   snd (process_frame (\<lambda>_. 1) 1 left_fist_frame_right_side init_detector) \<and>
   map_sum id left_fist_detected (fst (process_frame (\<lambda>_. 1) 1 left_fist_frame init_detector)) =
   map_sum id left_fist_detected
     (fst (process_frame (\<lambda>_. 1) 1 left_fist_frame_right_side init_detector))"
proof -
  have l: "is_left_hand scenario_A (width left_fist_frame) = Inr True"
    "is_left_hand scenario_A_right_side (width left_fist_frame_right_side) = Inr False"
    by (simp_all add: eval_defs)
  have f: "map is_fist (frame_hands left_fist_frame) =
           map is_fist (frame_hands left_fist_frame_right_side)"
    by (simp add: frame_hands_def eval_defs)
  have m: "map_option (map (map label)) (multi_handedness left_fist_frame) =
           map_option (map (map label)) (multi_handedness left_fist_frame_right_side)"
    by (simp add: left_fist_frame_def left_fist_frame_right_side_def hands_frame_def)
  from trigger_ignores_position_heuristic [OF f m, of "\<lambda>_. 1" 1 init_detector] l
  show ?thesis by blast
qed

lemma check_alert_timeout_never_activates:
  "alert_active (check_alert_timeout now s) \<Longrightarrow> alert_active s"
  by (simp add: check_alert_timeout_def split: if_splits)

text \<open>
  C8. For a frame in which the provider returns no hands (\<open>None\<close> or an empty
  sequence) \<open>process_frame\<close> returns, without an exception, the summary with the number
  of face regions returned, no hands and no left fist, and the detector as the timeout
  evaluation alone leaves it; the alert is active afterwards only if it was before.
\<close>

theorem no_hands_summary:
  assumes "multi_hand_landmarks frm = None \<or> multi_hand_landmarks frm = Some []"
  shows "process_frame clock now frm s =
           (Inr (summary (face_count frm) 0 False), check_alert_timeout now s) \<and>
         (alert_active (snd (process_frame clock now frm s)) \<longrightarrow> alert_active s)"
proof -
  from assms have "frame_hands frm = []"
    by (auto simp: frame_hands_def)
  then have "process_frame clock now frm s =
           (Inr (summary (face_count frm) 0 False), check_alert_timeout now s)"
    by (simp add: process_frame_loop frame_loop_def)
  then show ?thesis
    using check_alert_timeout_never_activates [of now s] by simp
qed

theorem no_hands_summary_witness:
  "multi_hand_landmarks (no_hands_frame\<lparr>detections := Some [(), ()]\<rparr>) = None \<and>
   process_frame (\<lambda>_. 1) 1 (no_hands_frame\<lparr>detections := Some [(), ()]\<rparr>) stale_alert =
     (Inr (summary 2 0 False), stale_alert) \<and>
   multi_hand_landmarks (hands_frame (Some []) None) = Some [] \<and>
   process_frame (\<lambda>_. 5) 5 (hands_frame (Some []) None) stale_alert =
     (Inr (summary 0 0 False), alert False 0)"
proof -
  have "multi_hand_landmarks (no_hands_frame\<lparr>detections := Some [(), ()]\<rparr>) = None"
    "multi_hand_landmarks (hands_frame (Some []) None) = Some []"
    "face_count (no_hands_frame\<lparr>detections := Some [(), ()]\<rparr>) = 2"
    "face_count (hands_frame (Some []) None) = 0"
    "check_alert_timeout 1 stale_alert = stale_alert"
    "check_alert_timeout 5 stale_alert = alert False 0"
    by (simp_all add: no_hands_frame_def hands_frame_def face_count_def
        check_alert_timeout_def stale_alert_def)
  with no_hands_summary [of "no_hands_frame\<lparr>detections := Some [(), ()]\<rparr>" "\<lambda>_. 1" 1 stale_alert]
    no_hands_summary [of "hands_frame (Some []) None" "\<lambda>_. 5" 5 stale_alert]
  show ?thesis by simp
qed

text \<open>
  C9. The timeout evaluation leaves an inactive alert inactive, and a call of
  \<open>process_frame\<close> on a frame with no trigger event leaves an inactive alert inactive,
  for every state, every clock reading and whether the call returns or raises.
\<close>

theorem timeout_never_activates:
  "(\<not> alert_active s \<longrightarrow> \<not> alert_active (check_alert_timeout now s)) \<and>
   (\<not> trigger_event frm \<and> \<not> alert_active s \<longrightarrow>
      \<not> alert_active (snd (process_frame clock now frm s)))"
  using check_alert_timeout_never_activates [of now s]
    process_frame_not_triggered [of frm clock now s]
  by auto

theorem timeout_never_activates_witness:
  "\<not> alert_active init_detector \<and> \<not> alert_active (check_alert_timeout 9 init_detector) \<and>
   \<not> trigger_event right_fist_frame \<and>
   \<not> alert_active (snd (process_frame (\<lambda>_. 9) 9 right_fist_frame init_detector))"
proof -
  have "\<not> alert_active init_detector" by (simp add: init_detector_def)
  with timeout_never_activates [of init_detector 9 right_fist_frame "\<lambda>_. 9"]
    right_fist_frame_no_event
  show ?thesis by blast
qed

text \<open>
  C10. When the provider returns hand landmark sets (of 21 points, or more) and no
  handedness results, \<open>process_frame\<close> returns without an exception, counts the hands,
  reports no left fist, has no trigger event and leaves the detector as the timeout
  evaluation alone leaves it, also when a hand is a fist for \<open>is_fist\<close>.
\<close>

theorem no_handedness_no_trigger:
  assumes "\<not> truthy (multi_handedness frm)"
    and "multi_hand_landmarks frm = Some hs"
    and "\<forall>h \<in> set hs. 21 \<le> length h"
  shows "process_frame clock now frm s =
           (Inr (summary (face_count frm) (length hs) False), check_alert_timeout now s) \<and>
         \<not> trigger_event frm"
proof -
  from assms(2) have hs: "frame_hands frm = hs" by (simp add: frame_hands_def)
  have ne: "\<not> trigger_event frm"
    by (simp add: trigger_event_hands qualifies_def provider_label_falsy [OF assms(1)])
  have "\<forall>ih \<in> set (enumerate 0 (frame_hands frm)). \<not> hand_raises (multi_handedness frm) ih"
    using assms(1,3) hs
    by (auto simp: hand_raises_def in_set_enumerate_eq is_fist_long)
  from process_frame_returns [OF this, of clock now s]
  obtain info s' where p: "process_frame clock now frm s = (Inr info, s')" by blast
  from process_frame_not_triggered [OF ne, of clock now s] p
  have "s' = check_alert_timeout now s" by simp
  with p process_frame_summary [OF p] ne hs show ?thesis by simp
qed

theorem no_handedness_no_trigger_witness:
  "\<not> truthy (multi_handedness unlabelled_fist_frame) \<and>
   multi_hand_landmarks unlabelled_fist_frame = Some [scenario_A] \<and>
   21 \<le> length scenario_A \<and> is_fist scenario_A = Inr True \<and>
   process_frame (\<lambda>_. 1) 1 unlabelled_fist_frame init_detector =
     (Inr (summary 0 1 False), init_detector) \<and>
   \<not> trigger_event unlabelled_fist_frame"
proof -
  have a: "\<not> truthy (multi_handedness unlabelled_fist_frame)"
    and b: "multi_hand_landmarks unlabelled_fist_frame = Some [scenario_A]"
    and c: "\<forall>h \<in> set [scenario_A]. 21 \<le> length h"
    by (simp_all add: unlabelled_fist_frame_def hands_frame_def truthy_def scenario_A_def
        example_hand_length)
  have "face_count unlabelled_fist_frame = 0"
    "check_alert_timeout 1 init_detector = init_detector"
    by (simp_all add: face_count_def unlabelled_fist_frame_def hands_frame_def
        check_alert_timeout_def init_detector_def)
  with no_handedness_no_trigger [OF a b c, of "\<lambda>_. 1" 1 init_detector] a b c scenario_A_fist
  show ?thesis by simp
qed

end
